theory Spec2Isabelle
  imports Main "HOL-Library.AList" "HOL-Library.Char_ord" "HOL-Library.List_Lexorder"
begin

section \<open>Python values\<close>

text \<open>
  The stage script \<^verbatim>\<open>stages/01_download_build.py\<close> handles values decoded from JSON.
  A Python \<^verbatim>\<open>str\<close> is modelled as a \<^typ>\<open>string\<close> whose characters are the code points
  below 256; a JSON number is a Python \<^verbatim>\<open>int\<close> (floating point numbers are outside the
  model). A \<^verbatim>\<open>dict\<close> is an association list in insertion order, looked up with
  \<^const>\<open>map_of\<close>; the keys of a \<^verbatim>\<open>dict\<close> are distinct.
\<close>

datatype json =
    JNull
  | JBool bool
  | JInt int
  | JStr string
  | JArr "json list"
  | JObj "(string \<times> json) list"

type_synonym jrecord = "(string \<times> json) list"

text \<open>
  A cell of a data frame holds a Python object or the missing-value marker \<^verbatim>\<open>NaN\<close>
  (\<^const>\<open>None\<close>) that pandas puts where a record lacks a key.
\<close>

type_synonym cell = "json option"

subsection \<open>\<^verbatim>\<open>str.strip\<close>, \<^verbatim>\<open>str.lower\<close>, \<^verbatim>\<open>str.replace\<close>\<close>

definition isspace :: "char \<Rightarrow> bool" where
  "isspace c = (let n = (of_char c :: nat) in
     (9 \<le> n \<and> n \<le> 13) \<or> (28 \<le> n \<and> n \<le> 32) \<or> n = 133 \<or> n = 160)"

definition isupper :: "char \<Rightarrow> bool" where
  "isupper c = (let n = (of_char c :: nat) in
     (65 \<le> n \<and> n \<le> 90) \<or> (192 \<le> n \<and> n \<le> 222 \<and> n \<noteq> 215))"

definition strip :: "string \<Rightarrow> string" where
  "strip s = rev (dropWhile isspace (rev (dropWhile isspace s)))"

definition lower_char :: "char \<Rightarrow> char" where
  "lower_char c = (if isupper c then char_of ((of_char c :: nat) + 32) else c)"

definition lower :: "string \<Rightarrow> string" where
  "lower s = map lower_char s"

text \<open>\<^verbatim>\<open>s.replace(old, new)\<close> for one-character \<^verbatim>\<open>old\<close> and \<^verbatim>\<open>new\<close>.\<close>

definition replace :: "char \<Rightarrow> char \<Rightarrow> string \<Rightarrow> string" where
  "replace old new s = map (\<lambda>c. if c = old then new else c) s"

text \<open>
  Line 66: \<^verbatim>\<open>str(c).strip().lower().replace(' ', '_').replace('-', '_')\<close>; a column
  label is a JSON key, so \<^verbatim>\<open>str(c)\<close> is \<^verbatim>\<open>c\<close>.
\<close>

definition standardize :: "string \<Rightarrow> string" where
  "standardize c = replace CHR ''-'' CHR ''_'' (replace CHR '' '' CHR ''_'' (lower (strip c)))"

section \<open>Data frames\<close>

text \<open>
  A \<^verbatim>\<open>pandas.DataFrame\<close>: its columns in order, each a label with its cells, and the
  length of its index. Labels may repeat.
\<close>

record dataframe =
  cols :: "(string \<times> cell list) list"
  nrows :: nat

definition columns :: "dataframe \<Rightarrow> string list" where
  "columns df = map fst (cols df)"

definition len :: "dataframe \<Rightarrow> nat" where
  "len df = nrows df"

text \<open>
  \<^verbatim>\<open>pd.DataFrame(data)\<close> for a list of dicts: the columns are the keys in order of first
  appearance (pandas collects them with a table of the keys seen so far), a record
  without the key gives \<^verbatim>\<open>NaN\<close>.
\<close>

fun fast_unique :: "'a list \<Rightarrow> 'a list \<Rightarrow> 'a list" where
  "fast_unique uniques [] = uniques"
| "fast_unique uniques (k # ks) =
     fast_unique (if k \<in> set uniques then uniques else uniques @ [k]) ks"

definition DataFrame :: "jrecord list \<Rightarrow> dataframe" where
  "DataFrame data =
     \<lparr>cols = map (\<lambda>k. (k, map (\<lambda>r. map_of r k) data))
              (fast_unique [] (concat (map (map fst) data))),
      nrows = length data\<rparr>"

text \<open>Line 66: \<^verbatim>\<open>df.columns = [... for c in df.columns]\<close>.\<close>

definition standardize_columns :: "dataframe \<Rightarrow> dataframe" where
  "standardize_columns df = df\<lparr>cols := map (\<lambda>(c, cs). (standardize c, cs)) (cols df)\<rparr>"

section \<open>\<^verbatim>\<open>json.dumps\<close>\<close>

text \<open>
  \<^verbatim>\<open>json.dumps(x)\<close> with its default arguments: separators \<^verbatim>\<open>", "\<close> and \<^verbatim>\<open>": "\<close>,
  \<^verbatim>\<open>ensure_ascii=True\<close>. \<^verbatim>\<open>str(int)\<close> writes decimal digits.
\<close>

fun digits :: "nat \<Rightarrow> string" where
  "digits n = (if n < 10 then [char_of (48 + n)]
               else digits (n div 10) @ [char_of (48 + n mod 10)])"

declare digits.simps [simp del]

definition str_int :: "int \<Rightarrow> string" where
  "str_int i = (if i < 0 then CHR ''-'' # digits (nat (- i)) else digits (nat i))"

definition hex_digit :: "nat \<Rightarrow> char" where
  "hex_digit n = (if n < 10 then char_of (48 + n) else char_of (87 + n))"

text \<open>
  The escapes of \<^verbatim>\<open>py_encode_basestring_ascii\<close>: the quote (0x22) and the backslash
  (0x5C) get a backslash, the control characters 8, 9, 10, 12 and 13 their letter, and
  every other character outside \<^verbatim>\<open>' '..'~'\<close> the form \<^verbatim>\<open>\u00xx\<close>.
\<close>

definition escape_char :: "char \<Rightarrow> string" where
  "escape_char c = (let n = (of_char c :: nat) in
     if n = 0x22 then [CHR 0x5C, CHR 0x22]
     else if n = 0x5C then [CHR 0x5C, CHR 0x5C]
     else if n = 8 then [CHR 0x5C, CHR ''b'']
     else if n = 12 then [CHR 0x5C, CHR ''f'']
     else if n = 10 then [CHR 0x5C, CHR ''n'']
     else if n = 13 then [CHR 0x5C, CHR ''r'']
     else if n = 9 then [CHR 0x5C, CHR ''t'']
     else if n < 32 \<or> 126 < n then
       [CHR 0x5C, CHR ''u'', CHR ''0'', CHR ''0'', hex_digit (n div 16), hex_digit (n mod 16)]
     else [c])"

definition dumps_str :: "string \<Rightarrow> string" where
  "dumps_str s = CHR 0x22 # concat (map escape_char s) @ [CHR 0x22]"

fun json_dumps :: "json \<Rightarrow> string"
  and dumps_items :: "json list \<Rightarrow> string"
  and dumps_members :: "(string \<times> json) list \<Rightarrow> string" where
  "json_dumps JNull = ''null''"
| "json_dumps (JBool b) = (if b then ''true'' else ''false'')"
| "json_dumps (JInt i) = str_int i"
| "json_dumps (JStr s) = dumps_str s"
| "json_dumps (JArr xs) = ''['' @ dumps_items xs @ '']''"
| "json_dumps (JObj ms) = ''{'' @ dumps_members ms @ ''}''"
| "dumps_items [] = []"
| "dumps_items [x] = json_dumps x"
| "dumps_items (x # y # ys) = json_dumps x @ '', '' @ dumps_items (y # ys)"
| "dumps_members [] = []"
| "dumps_members [(k, v)] = dumps_str k @ '': '' @ json_dumps v"
| "dumps_members ((k, v) # m # ms) =
     dumps_str k @ '': '' @ json_dumps v @ '', '' @ dumps_members (m # ms)"

section \<open>\<^verbatim>\<open>json.loads\<close>\<close>

text \<open>
  The decoder of the Python library, as far as the values of the model go: the text is
  read from the left, every function gives the value read and the text that remains, or
  \<^const>\<open>None\<close> where the library raises \<^verbatim>\<open>JSONDecodeError\<close>. Whitespace is
  what \<^verbatim>\<open>WHITESPACE\<close> matches: space, tab, line feed, carriage return.
\<close>

definition is_ws :: "char \<Rightarrow> bool" where
  "is_ws c = (c = CHR '' '' \<or> c = CHR 0x09 \<or> c = CHR 0x0A \<or> c = CHR 0x0D)"

definition skip_ws :: "string \<Rightarrow> string" where
  "skip_ws s = dropWhile is_ws s"

definition is_digit :: "char \<Rightarrow> bool" where
  "is_digit c = (let n = (of_char c :: nat) in 48 \<le> n \<and> n \<le> 57)"

text \<open>\<^verbatim>\<open>int(text)\<close> for a text of decimal digits.\<close>

definition int_of_digits :: "string \<Rightarrow> nat" where
  "int_of_digits ds = foldl (\<lambda>n c. 10 * n + ((of_char c :: nat) - 48)) 0 ds"

text \<open>
  \<^verbatim>\<open>NUMBER_RE\<close>, \<^verbatim>\<open>(-?(?:0|[1-9]\d*))(\.\d+)?([eE][-+]?\d+)?\<close>: the integer part, and
  whether a fraction or an exponent follows it. With either the number is a \<^verbatim>\<open>float\<close>,
  which the model does not hold: \<^const>\<open>None\<close>.
\<close>

fun has_frac :: "string \<Rightarrow> bool" where
  "has_frac (c # d # s) = (c = CHR ''.'' \<and> is_digit d)"
| "has_frac s = False"

fun has_exp :: "string \<Rightarrow> bool" where
  "has_exp (c # d # s) =
     ((c = CHR ''e'' \<or> c = CHR ''E'')
      \<and> (is_digit d \<or> ((d = CHR ''+'' \<or> d = CHR ''-'') \<and> (case s of [] \<Rightarrow> False | d2 # s' \<Rightarrow> is_digit d2))))"
| "has_exp s = False"

definition scan_integer :: "string \<Rightarrow> (nat \<times> string) option" where
  "scan_integer s =
     (case s of
        [] \<Rightarrow> None
      | c # r \<Rightarrow>
          if c = CHR ''0'' then Some (0, r)
          else if is_digit c then Some (int_of_digits (takeWhile is_digit s), dropWhile is_digit s)
          else None)"

definition scan_number :: "string \<Rightarrow> (json \<times> string) option" where
  "scan_number s =
     (let negative = (case s of [] \<Rightarrow> False | c # r \<Rightarrow> c = CHR ''-'')
      in case scan_integer (if negative then tl s else s) of
           None \<Rightarrow> None
         | Some (n, rest) \<Rightarrow>
             if has_frac rest \<or> has_exp rest then None
             else Some (JInt (if negative then - int n else int n), rest))"

text \<open>
  \<^verbatim>\<open>scanstring\<close> with \<^verbatim>\<open>strict=True\<close>, started after the opening quote: the text up to the
  closing quote, with its escapes decoded. A control character is an error; so is, in
  the model, an escape \<^verbatim>\<open>\uXXXX\<close> of a code point from 256 on.
\<close>

definition hex_value :: "char \<Rightarrow> nat option" where
  "hex_value c = (let n = (of_char c :: nat) in
     if 48 \<le> n \<and> n \<le> 57 then Some (n - 48)
     else if 97 \<le> n \<and> n \<le> 102 then Some (n - 87)
     else if 65 \<le> n \<and> n \<le> 70 then Some (n - 55)
     else None)"

definition decode_uXXXX :: "char \<Rightarrow> char \<Rightarrow> char \<Rightarrow> char \<Rightarrow> nat option" where
  "decode_uXXXX h1 h2 h3 h4 =
     (case (hex_value h1, hex_value h2, hex_value h3, hex_value h4) of
        (Some a, Some b, Some c, Some d) \<Rightarrow> Some (((a * 16 + b) * 16 + c) * 16 + d)
      | _ \<Rightarrow> None)"

text \<open>The table \<^verbatim>\<open>BACKSLASH\<close>.\<close>

definition backslash :: "char \<Rightarrow> char option" where
  "backslash esc =
     (if esc = CHR 0x22 then Some (CHR 0x22)
      else if esc = CHR 0x5C then Some (CHR 0x5C)
      else if esc = CHR ''/'' then Some (CHR ''/'')
      else if esc = CHR ''b'' then Some (CHR 0x08)
      else if esc = CHR ''f'' then Some (CHR 0x0C)
      else if esc = CHR ''n'' then Some (CHR 0x0A)
      else if esc = CHR ''r'' then Some (CHR 0x0D)
      else if esc = CHR ''t'' then Some (CHR 0x09)
      else None)"

definition chunk :: "char \<Rightarrow> (string \<times> string) option \<Rightarrow> (string \<times> string) option" where
  "chunk c r = (case r of None \<Rightarrow> None | Some (str, rest) \<Rightarrow> Some (c # str, rest))"

fun scanstring :: "string \<Rightarrow> (string \<times> string) option" where
  "scanstring [] = None"
| "scanstring (c # s) =
     (if c = CHR 0x22 then Some ([], s)
      else if c = CHR 0x5C then
        (case s of
           [] \<Rightarrow> None
         | esc # s1 \<Rightarrow>
             if esc = CHR ''u'' then
               (case s1 of
                  h1 # h2 # h3 # h4 # s2 \<Rightarrow>
                    (case decode_uXXXX h1 h2 h3 h4 of
                       None \<Rightarrow> None
                     | Some uni \<Rightarrow> if uni < 256 then chunk (char_of uni) (scanstring s2) else None)
                | _ \<Rightarrow> None)
             else
               (case backslash esc of
                  None \<Rightarrow> None
                | Some ch \<Rightarrow> chunk ch (scanstring s1)))
      else if (of_char c :: nat) < 32 then None
      else chunk c (scanstring s))"

text \<open>\<^verbatim>\<open>dict(pairs)\<close>: a later pair with a key already present replaces its value.\<close>

definition dict :: "(string \<times> json) list \<Rightarrow> (string \<times> json) list" where
  "dict pairs = fold (\<lambda>(k, v) d. AList.update k v d) pairs []"

text \<open>
  \<^verbatim>\<open>scan_once\<close>, \<^verbatim>\<open>JSONArray\<close> and \<^verbatim>\<open>JSONObject\<close>. The two loops are recursions: \<open>parse_array\<close>
  stands at the start of an element, \<open>parse_object\<close> after the opening quote of a key.
  The first argument bounds the nesting of the calls; every call reads a character
  before the next one, so the length of the text is enough and \<open>json_loads\<close> passes it.
\<close>

fun scan_once :: "nat \<Rightarrow> string \<Rightarrow> (json \<times> string) option"
  and parse_array :: "nat \<Rightarrow> string \<Rightarrow> (json list \<times> string) option"
  and parse_object :: "nat \<Rightarrow> string \<Rightarrow> ((string \<times> json) list \<times> string) option" where
  "scan_once 0 s = None"
| "scan_once (Suc n) s =
     (case s of
        [] \<Rightarrow> None
      | c # r \<Rightarrow>
          if c = CHR 0x22 then
            (case scanstring r of None \<Rightarrow> None | Some (str, rest) \<Rightarrow> Some (JStr str, rest))
          else if c = CHR ''{'' then
            (case skip_ws r of
               [] \<Rightarrow> None
             | c1 # r1 \<Rightarrow>
                 if c1 = CHR ''}'' then Some (JObj [], r1)
                 else if c1 = CHR 0x22 then
                   (case parse_object n r1 of
                      None \<Rightarrow> None
                    | Some (pairs, rest) \<Rightarrow> Some (JObj (dict pairs), rest))
                 else None)
          else if c = CHR ''['' then
            (case skip_ws r of
               [] \<Rightarrow> None
             | c1 # r1 \<Rightarrow>
                 if c1 = CHR '']'' then Some (JArr [], r1)
                 else
                   (case parse_array n (c1 # r1) of
                      None \<Rightarrow> None
                    | Some (vals, rest) \<Rightarrow> Some (JArr vals, rest)))
          else if take 4 s = ''null'' then Some (JNull, drop 4 s)
          else if take 4 s = ''true'' then Some (JBool True, drop 4 s)
          else if take 5 s = ''false'' then Some (JBool False, drop 5 s)
          else scan_number s)"
| "parse_array 0 s = None"
| "parse_array (Suc n) s =
     (case scan_once n s of
        None \<Rightarrow> None
      | Some (v, rest) \<Rightarrow>
          (case skip_ws rest of
             [] \<Rightarrow> None
           | c # r \<Rightarrow>
               if c = CHR '']'' then Some ([v], r)
               else if c = CHR '','' then
                 (case parse_array n (skip_ws r) of
                    None \<Rightarrow> None
                  | Some (vals, rest') \<Rightarrow> Some (v # vals, rest'))
               else None))"
| "parse_object 0 s = None"
| "parse_object (Suc n) s =
     (case scanstring s of
        None \<Rightarrow> None
      | Some (key, r) \<Rightarrow>
          (case skip_ws r of
             [] \<Rightarrow> None
           | c # r1 \<Rightarrow>
               if c \<noteq> CHR '':'' then None
               else
                 (case scan_once n (skip_ws r1) of
                    None \<Rightarrow> None
                  | Some (v, rest) \<Rightarrow>
                      (case skip_ws rest of
                         [] \<Rightarrow> None
                       | c2 # r2 \<Rightarrow>
                           if c2 = CHR ''}'' then Some ([(key, v)], r2)
                           else if c2 = CHR '','' then
                             (case skip_ws r2 of
                                [] \<Rightarrow> None
                              | q # r3 \<Rightarrow>
                                  if q = CHR 0x22 then
                                    (case parse_object n r3 of
                                       None \<Rightarrow> None
                                     | Some (pairs, rest') \<Rightarrow> Some ((key, v) # pairs, rest'))
                                  else None)
                           else None))))"

text \<open>\<^verbatim>\<open>JSONDecoder.decode\<close>: one value, with whitespace around it and nothing else.\<close>

definition json_loads :: "string \<Rightarrow> json option" where
  "json_loads s =
     (case scan_once (length s) (skip_ws s) of
        None \<Rightarrow> None
      | Some (v, rest) \<Rightarrow> if skip_ws rest = [] then Some v else None)"

text \<open>
  The values that \<^verbatim>\<open>response.json()\<close> can give: the keys of every \<^verbatim>\<open>dict\<close> are pairwise
  distinct.
\<close>

fun wf_json :: "json \<Rightarrow> bool"
  and wf_items :: "json list \<Rightarrow> bool"
  and wf_members :: "(string \<times> json) list \<Rightarrow> bool" where
  "wf_json (JArr xs) = wf_items xs"
| "wf_json (JObj ms) = (distinct (map fst ms) \<and> wf_members ms)"
| "wf_json v = True"
| "wf_items [] = True"
| "wf_items (x # xs) = (wf_json x \<and> wf_items xs)"
| "wf_members [] = True"
| "wf_members ((k, v) # ms) = (wf_json v \<and> wf_members ms)"

section \<open>Column access and flattening\<close>

datatype exn = HTTPError | KeyError | AttributeError | WriteError

text \<open>
  \<^verbatim>\<open>df[col]\<close>: a \<^verbatim>\<open>Series\<close> when one column carries the label, a \<^verbatim>\<open>DataFrame\<close> of all
  the columns that carry it when several do, \<^verbatim>\<open>KeyError\<close> when none does.
\<close>

datatype selection = Series "cell list" | Frame "cell list list"

definition getitem :: "dataframe \<Rightarrow> string \<Rightarrow> exn + selection" where
  "getitem df col =
     (case filter (\<lambda>(c, cs). c = col) (cols df) of
        [] \<Rightarrow> Inl KeyError
      | [(c, cs)] \<Rightarrow> Inr (Series cs)
      | several \<Rightarrow> Inr (Frame (map snd several)))"

text \<open>\<^verbatim>\<open>df[col] = series\<close>: the cells of the column labelled \<^verbatim>\<open>col\<close> are replaced.\<close>

definition setitem :: "dataframe \<Rightarrow> string \<Rightarrow> cell list \<Rightarrow> dataframe" where
  "setitem df col new = df\<lparr>cols := map (\<lambda>(c, cs). if c = col then (c, new) else (c, cs)) (cols df)\<rparr>"

text \<open>
  The two lambdas of lines 29 and 35: \<^verbatim>\<open>json.dumps(x) if isinstance(x, dict) else x\<close>
  and the same for \<^verbatim>\<open>list\<close>. The result of \<^verbatim>\<open>json.dumps\<close> is a \<^verbatim>\<open>str\<close>.
\<close>

fun isinstance_dict :: "cell \<Rightarrow> bool" where
  "isinstance_dict (Some (JObj ms)) = True"
| "isinstance_dict x = False"

fun isinstance_list :: "cell \<Rightarrow> bool" where
  "isinstance_list (Some (JArr xs)) = True"
| "isinstance_list x = False"

fun dumps_cell :: "cell \<Rightarrow> cell" where
  "dumps_cell (Some x) = Some (JStr (json_dumps x))"
| "dumps_cell None = None"

definition dumps_if_dict :: "cell \<Rightarrow> cell" where
  "dumps_if_dict x = (if isinstance_dict x then dumps_cell x else x)"

definition dumps_if_list :: "cell \<Rightarrow> cell" where
  "dumps_if_list x = (if isinstance_list x then dumps_cell x else x)"

text \<open>
  Lines 26 to 36. \<^verbatim>\<open>Series.apply\<close> maps the lambda over the cells. When the label is
  carried by several columns \<^verbatim>\<open>df[col]\<close> is a \<^verbatim>\<open>DataFrame\<close>, whose \<^verbatim>\<open>apply\<close> hands the
  lambda whole columns: they are neither \<^verbatim>\<open>dict\<close> nor \<^verbatim>\<open>list\<close> and come back as they
  are, so the frame is assigned to itself.
\<close>

definition flatten_dict_column :: "dataframe \<Rightarrow> string \<Rightarrow> dataframe" where
  "flatten_dict_column df col =
     (if col \<in> set (columns df) then
        (case getitem df col of
           Inr (Series cs) \<Rightarrow> setitem df col (map dumps_if_dict cs)
         | _ \<Rightarrow> df)
      else df)"

definition flatten_list_column :: "dataframe \<Rightarrow> string \<Rightarrow> dataframe" where
  "flatten_list_column df col =
     (if col \<in> set (columns df) then
        (case getitem df col of
           Inr (Series cs) \<Rightarrow> setitem df col (map dumps_if_list cs)
         | _ \<Rightarrow> df)
      else df)"

subsection \<open>The normalisation of lines 63 to 76\<close>

text \<open>\<^verbatim>\<open>Series.dropna\<close> drops \<^verbatim>\<open>NaN\<close> and \<^verbatim>\<open>None\<close>.\<close>

fun isna :: "cell \<Rightarrow> bool" where
  "isna None = True"
| "isna (Some JNull) = True"
| "isna x = False"

definition dropna :: "cell list \<Rightarrow> cell list" where
  "dropna cs = filter (\<lambda>x. \<not> isna x) cs"

text \<open>
  \<^verbatim>\<open>Series.dtype == 'object'\<close>, for cells decoded from JSON with integers in the
  64-bit range: pandas gives a column a numeric or boolean dtype when its cells are all
  numbers and missing values, or all booleans, and the dtype \<^verbatim>\<open>object\<close> when a cell is
  a \<^verbatim>\<open>str\<close>, a \<^verbatim>\<open>list\<close> or a \<^verbatim>\<open>dict\<close>, when booleans are mixed with other cells, and
  when every cell is \<^verbatim>\<open>None\<close>.
\<close>

fun is_bool :: "cell \<Rightarrow> bool" where
  "is_bool (Some (JBool b)) = True"
| "is_bool x = False"

fun is_boxed :: "cell \<Rightarrow> bool" where
  "is_boxed (Some (JStr s)) = True"
| "is_boxed (Some (JArr xs)) = True"
| "is_boxed (Some (JObj ms)) = True"
| "is_boxed x = False"

definition dtype_is_object :: "cell list \<Rightarrow> bool" where
  "dtype_is_object cs =
     (list_ex is_boxed cs
      \<or> (list_ex is_bool cs \<and> \<not> list_all is_bool cs)
      \<or> (cs \<noteq> [] \<and> list_all (\<lambda>x. x = Some JNull) cs))"

text \<open>
  The body of the loop of lines 69 to 76 for one label. \<^verbatim>\<open>df[col].dtype\<close> raises
  \<^verbatim>\<open>AttributeError\<close> when \<^verbatim>\<open>df[col]\<close> is a \<^verbatim>\<open>DataFrame\<close>, which has no such attribute.
\<close>

definition flatten_step :: "dataframe \<Rightarrow> string \<Rightarrow> exn + dataframe" where
  "flatten_step df col =
     (case getitem df col of
        Inl e \<Rightarrow> Inl e
      | Inr (Frame fs) \<Rightarrow> Inl AttributeError
      | Inr (Series cs) \<Rightarrow>
          if dtype_is_object cs then
            (case take 1 (dropna cs) of
               [] \<Rightarrow> Inr df
             | sample0 # rest \<Rightarrow>
                 if isinstance_dict sample0 then Inr (flatten_dict_column df col)
                 else if isinstance_list sample0 then Inr (flatten_list_column df col)
                 else Inr df)
          else Inr df)"

fun flatten_loop :: "string list \<Rightarrow> dataframe \<Rightarrow> exn + dataframe" where
  "flatten_loop [] df = Inr df"
| "flatten_loop (col # rest) df =
     (case flatten_step df col of
        Inl e \<Rightarrow> Inl e
      | Inr df' \<Rightarrow> flatten_loop rest df')"

text \<open>Lines 63 to 76: the frame that line 78 stores, or the exception raised on the way.\<close>

definition normalize_records :: "jrecord list \<Rightarrow> exn + dataframe" where
  "normalize_records data =
     (let df = standardize_columns (DataFrame data)
      in flatten_loop (columns df) df)"

section \<open>The run\<close>

text \<open>
  What the script prints: one constructor for each kind of line, holding the values the
  line interpolates. \<open>Rule\<close> is the line of sixty \<^verbatim>\<open>=\<close>, \<open>Title\<close> a heading between
  two rules; the text of an exception is not modelled beyond its kind.
\<close>

datatype event =
    Rule
  | Title string
  | Fetching string
  | Retrieved nat
  | Saved nat string
  | ErrorFetching string exn
  | SavedSummary nat
  | RecommendationAvailable nat
  | FileLine string nat nat
  | TotalLine nat nat

text \<open>
  The world outside the script: what \<^verbatim>\<open>requests.get\<close>, \<^verbatim>\<open>raise_for_status\<close> and
  \<^verbatim>\<open>response.json()\<close> give for an endpoint (an exception or the decoded records), and
  whether \<^verbatim>\<open>to_parquet\<close> raises for a file and a frame.
\<close>

record world =
  http_get :: "string \<Rightarrow> exn + jrecord list"
  parquet_raises :: "string \<Rightarrow> dataframe \<Rightarrow> bool"

text \<open>
  The state of a run: the parquet files of the directory \<^verbatim>\<open>brick/\<close> (a file holds the
  frame written to it), the dict \<^verbatim>\<open>dataframes\<close>, and the lines printed so far.
\<close>

record state =
  brick :: "(string \<times> dataframe) list"
  dataframes :: "string \<Rightarrow> dataframe option"
  stdout :: "event list"

text \<open>Lines 17 to 24. The first \<^verbatim>\<open>print\<close> precedes the request.\<close>

definition fetch_endpoint :: "world \<Rightarrow> string \<Rightarrow> (exn + jrecord list) \<times> event list" where
  "fetch_endpoint w endpoint =
     (case http_get w endpoint of
        Inl e \<Rightarrow> (Inl e, [Fetching endpoint])
      | Inr data \<Rightarrow> (Inr data, [Fetching endpoint, Retrieved (length data)]))"

text \<open>
  \<^verbatim>\<open>df.to_parquet(file, index=False)\<close>: the file is created or overwritten, or the call
  raises and the directory stays as it was.
\<close>

definition to_parquet ::
  "world \<Rightarrow> dataframe \<Rightarrow> string \<Rightarrow> (string \<times> dataframe) list \<Rightarrow> exn + (string \<times> dataframe) list" where
  "to_parquet w df file dir =
     (if parquet_raises w file df then Inl WriteError else Inr (AList.update file df dir))"

definition endpoints :: "(string \<times> string) list" where
  "endpoints =
     [(''gene'', ''gene''), (''allele'', ''allele''), (''drug'', ''drug''),
      (''guideline'', ''guideline''), (''recommendation'', ''recommendation''),
      (''diplotype'', ''diplotype''), (''pair'', ''pair'')]"

definition output_file :: "string \<Rightarrow> string" where
  "output_file name = ''cpic_'' @ name @ ''.parquet''"

text \<open>
  Lines 60 to 85, the body of the loop with its \<^verbatim>\<open>try\<close>: every exception is caught and
  printed. Line 78 stores the frame before line 82 writes it.
\<close>

definition download :: "world \<Rightarrow> string \<times> string \<Rightarrow> state \<Rightarrow> state" where
  "download w ne s =
     (case ne of (name, endpoint) \<Rightarrow>
        (case fetch_endpoint w endpoint of
           (Inl e, evs) \<Rightarrow> s\<lparr>stdout := stdout s @ evs @ [ErrorFetching name e]\<rparr>
         | (Inr data, evs) \<Rightarrow>
             if data = [] then s\<lparr>stdout := stdout s @ evs\<rparr>
             else
               (case normalize_records data of
                  Inl e \<Rightarrow> s\<lparr>stdout := stdout s @ evs @ [ErrorFetching name e]\<rparr>
                | Inr df \<Rightarrow>
                    (case to_parquet w df (output_file name) (brick s) of
                       Inl e \<Rightarrow>
                         s\<lparr>dataframes := (dataframes s)(name \<mapsto> df),
                           stdout := stdout s @ evs @ [ErrorFetching name e]\<rparr>
                     | Inr dir \<Rightarrow>
                         s\<lparr>brick := dir,
                           dataframes := (dataframes s)(name \<mapsto> df),
                           stdout := stdout s @ evs @ [Saved (len df) (output_file name)]\<rparr>))))"

text \<open>Lines 88 to 102. \<^verbatim>\<open>df[names]\<close> takes the columns that carry the labels, in their order.\<close>

definition key_cols :: "string list" where
  "key_cols = [''id'', ''genesymbol'', ''name'', ''functionalstatus'',
               ''clinicalfunctionalstatus'', ''activityvalue'', ''strength'']"

definition select_columns :: "dataframe \<Rightarrow> string list \<Rightarrow> dataframe" where
  "select_columns df names =
     df\<lparr>cols := concat (map (\<lambda>n. filter (\<lambda>(c, cs). c = n) (cols df)) names)\<rparr>"

text \<open>This write stands outside the \<^verbatim>\<open>try\<close>: its exception ends the run.\<close>

definition allele_summary :: "world \<Rightarrow> state \<Rightarrow> exn option \<times> state" where
  "allele_summary w s =
     (case dataframes s ''allele'' of
        None \<Rightarrow> (None, s)
      | Some allele_df \<Rightarrow>
          (let available_cols = filter (\<lambda>c. c \<in> set (columns allele_df)) key_cols;
               summary = select_columns allele_df available_cols;
               out = stdout s @ [Rule, Title ''Creating allele function summary...'', Rule]
           in case to_parquet w summary ''cpic_allele_functions.parquet'' (brick s) of
                Inl e \<Rightarrow> (Some e, s\<lparr>stdout := out\<rparr>)
              | Inr dir \<Rightarrow>
                  (None, s\<lparr>brick := dir, stdout := out @ [SavedSummary (len summary)]\<rparr>)))"

text \<open>Lines 105 to 113: the path of line 111 is computed and never used.\<close>

definition recommendation_summary :: "state \<Rightarrow> state" where
  "recommendation_summary s =
     (case dataframes s ''recommendation'' of
        None \<Rightarrow> s
      | Some rec_df \<Rightarrow>
          s\<lparr>stdout := stdout s @
             [Rule, Title ''Creating recommendation summary...'', Rule,
              RecommendationAvailable (len rec_df)]\<rparr>)"

text \<open>
  Lines 116 to 125: every file of the directory matching \<^verbatim>\<open>*.parquet\<close>, sorted by
  name, is read back and counted.
\<close>

definition endswith :: "string \<Rightarrow> string \<Rightarrow> bool" where
  "endswith s suffix = (length suffix \<le> length s \<and> drop (length s - length suffix) s = suffix)"

definition glob_parquet :: "(string \<times> dataframe) list \<Rightarrow> (string \<times> dataframe) list" where
  "glob_parquet dir = sort_key fst (filter (\<lambda>(f, df). endswith f ''.parquet'') dir)"

definition total_records :: "(string \<times> dataframe) list \<Rightarrow> nat" where
  "total_records files = fold (\<lambda>(f, df) total. total + len df) files 0"

definition report :: "state \<Rightarrow> state" where
  "report s =
     (let files = glob_parquet (brick s)
      in s\<lparr>stdout := stdout s @ [Rule, Title ''Output files:'', Rule]
            @ map (\<lambda>(f, df). FileLine f (len df) (length (columns df))) files
            @ [TotalLine (total_records files) (length files)]\<rparr>)"

text \<open>
  \<^verbatim>\<open>main\<close>, started on a directory \<open>dir\<close>: the state at the end, and the exception that
  ended the run if one did.
\<close>

definition initial :: "(string \<times> dataframe) list \<Rightarrow> state" where
  "initial dir =
     \<lparr>brick = dir, dataframes = Map.empty,
      stdout = [Rule, Title ''Downloading CPIC pharmacogenomics data...'', Rule]\<rparr>"

definition download_all :: "world \<Rightarrow> (string \<times> dataframe) list \<Rightarrow> state" where
  "download_all w dir = fold (download w) endpoints (initial dir)"

definition main :: "world \<Rightarrow> (string \<times> dataframe) list \<Rightarrow> exn option \<times> state" where
  "main w dir =
     (case allele_summary w (download_all w dir) of
        (Some e, s) \<Rightarrow> (Some e, s)
      | (None, s) \<Rightarrow> (None, report (recommendation_summary s)))"

section \<open>The column policy in the specification's words\<close>

text \<open>
  The specification describes the flattening column by column: the first non-null value
  of a column decides whether its objects, its lists or none of its cells are
  serialised. These definitions follow that description; the theorems below compare
  them with the loop of lines 69 to 76.
\<close>

definition serialize_objects :: "cell list \<Rightarrow> cell list" where
  "serialize_objects cs =
     map (\<lambda>x. case x of Some (JObj ms) \<Rightarrow> Some (JStr (json_dumps (JObj ms))) | _ \<Rightarrow> x) cs"

definition serialize_lists :: "cell list \<Rightarrow> cell list" where
  "serialize_lists cs =
     map (\<lambda>x. case x of Some (JArr xs) \<Rightarrow> Some (JStr (json_dumps (JArr xs))) | _ \<Rightarrow> x) cs"

definition first_sample_policy :: "cell list \<Rightarrow> cell list" where
  "first_sample_policy cs =
     (case find (\<lambda>x. \<not> isna x) cs of
        Some (Some (JObj ms)) \<Rightarrow> serialize_objects cs
      | Some (Some (JArr xs)) \<Rightarrow> serialize_lists cs
      | _ \<Rightarrow> cs)"

section \<open>What follows a value in a JSON text\<close>

text \<open>
  In the text that \<^verbatim>\<open>json.dumps\<close> writes, a value is followed by a comma, a closing
  bracket, a closing brace, or the end of the text.
\<close>

fun delimited :: "string \<Rightarrow> bool" where
  "delimited [] = True"
| "delimited (c # s) = (c = CHR '','' \<or> c = CHR '']'' \<or> c = CHR ''}'')"

section \<open>Concrete inputs\<close>

text \<open>
  The specification's scenario: the \<^verbatim>\<open>gene\<close> endpoint returns
  \<^verbatim>\<open>[{"Gene Symbol": "CYP2D6", "chr": "22"}]\<close>.
\<close>

definition gene_records :: "jrecord list" where
  "gene_records = [[(''Gene Symbol'', JStr ''CYP2D6''), (''chr'', JStr ''22'')]]"


text \<open>
  Three records with mixed columns: \<^verbatim>\<open>a\<close> starts with an object and holds a list later,
  \<^verbatim>\<open>b\<close> starts with \<^verbatim>\<open>null\<close>, then a list, then an object, \<^verbatim>\<open>c\<close> starts with a string
  and holds an object and a list later.
\<close>

definition mixed_records :: "jrecord list" where
  "mixed_records =
     [[(''a'', JObj [(''k'', JInt 1)]), (''b'', JNull), (''c'', JStr ''x'')],
      [(''a'', JArr [JInt 1]), (''b'', JArr [JInt 2, JInt 3]), (''c'', JObj [])],
      [(''b'', JObj []), (''c'', JArr [])]]"

definition mixed_table :: dataframe where
  "mixed_table =
     \<lparr>cols =
        [(''a'', [Some (JStr (json_dumps (JObj [(''k'', JInt 1)]))), Some (JArr [JInt 1]), None]),
         (''b'', [Some JNull, Some (JStr ''[2, 3]''), Some (JObj [])]),
         (''c'', [Some (JStr ''x''), Some (JObj []), Some (JArr [])])],
      nrows = 3\<rparr>"

text \<open>Two keys that differ only in a space and a hyphen.\<close>

definition colliding_records :: "jrecord list" where
  "colliding_records = [[(''a b'', JInt 1), (''a-b'', JInt 2)]]"

definition allele_records :: "jrecord list" where
  "allele_records =
     [[(''id'', JInt 1), (''Name'', JStr ''*1''), (''geneSymbol'', JStr ''CYP2D6''),
       (''frequency'', JObj [])],
      [(''id'', JInt 2), (''Name'', JStr ''*2''), (''geneSymbol'', JStr ''CYP2D6'')]]"

definition allele_table :: dataframe where
  "allele_table =
     \<lparr>cols =
        [(''id'', [Some (JInt 1), Some (JInt 2)]),
         (''name'', [Some (JStr ''*1''), Some (JStr ''*2'')]),
         (''genesymbol'', [Some (JStr ''CYP2D6''), Some (JStr ''CYP2D6'')]),
         (''frequency'', [Some (JStr ''{}''), None])],
      nrows = 2\<rparr>"

definition allele_functions_table :: dataframe where
  "allele_functions_table =
     \<lparr>cols =
        [(''id'', [Some (JInt 1), Some (JInt 2)]),
         (''genesymbol'', [Some (JStr ''CYP2D6''), Some (JStr ''CYP2D6'')]),
         (''name'', [Some (JStr ''*1''), Some (JStr ''*2'')])],
      nrows = 2\<rparr>"


text \<open>
  A world with three kinds of trouble: \<^verbatim>\<open>drug\<close> fails with an HTTP error,
  \<^verbatim>\<open>recommendation\<close> answers with the colliding keys above, and writing
  \<^verbatim>\<open>cpic_allele.parquet\<close> raises; \<^verbatim>\<open>guideline\<close>, \<^verbatim>\<open>diplotype\<close> and \<^verbatim>\<open>pair\<close> answer
  with an empty list.
\<close>

definition troubled :: world where
  "troubled =
     \<lparr>http_get = (\<lambda>endpoint.
        if endpoint = ''gene'' then Inr gene_records
        else if endpoint = ''allele'' then Inr allele_records
        else if endpoint = ''drug'' then Inl HTTPError
        else if endpoint = ''recommendation'' then Inr colliding_records
        else Inr []),
      parquet_raises = (\<lambda>file df. file = ''cpic_allele.parquet'')\<rparr>"


section \<open>Column labels\<close>




lemma columns_setitem: "columns (setitem df col new) = columns df"
  by (auto simp: columns_def setitem_def split: prod.splits)

lemma columns_flatten_dict: "columns (flatten_dict_column df col) = columns df"
  by (auto simp: flatten_dict_column_def columns_setitem split: sum.splits selection.splits)

lemma columns_flatten_list: "columns (flatten_list_column df col) = columns df"
  by (auto simp: flatten_list_column_def columns_setitem split: sum.splits selection.splits)

lemma columns_flatten_step: "flatten_step df col = Inr df' \<Longrightarrow> columns df' = columns df"
  by (auto simp: flatten_step_def columns_flatten_dict columns_flatten_list
      split: sum.splits selection.splits if_splits list.splits)

lemma columns_flatten_loop: "flatten_loop names df = Inr df' \<Longrightarrow> columns df' = columns df"
  by (induction names arbitrary: df) (auto split: sum.splits dest: columns_flatten_step)




section \<open>One pass of the flattening loop\<close>

lemma dumps_if_dict_eq:
  "dumps_if_dict x = (case x of Some (JObj ms) \<Rightarrow> Some (JStr (json_dumps (JObj ms))) | _ \<Rightarrow> x)"
  by (cases x rule: isinstance_dict.cases) (simp_all add: dumps_if_dict_def)

lemma dumps_if_list_eq:
  "dumps_if_list x = (case x of Some (JArr xs) \<Rightarrow> Some (JStr (json_dumps (JArr xs))) | _ \<Rightarrow> x)"
  by (cases x rule: isinstance_list.cases) (simp_all add: dumps_if_list_def)

lemma map_dumps_if_dict: "map dumps_if_dict cs = serialize_objects cs"
  unfolding serialize_objects_def by (rule map_cong) (simp_all add: dumps_if_dict_eq)

lemma map_dumps_if_list: "map dumps_if_list cs = serialize_lists cs"
  unfolding serialize_lists_def by (rule map_cong) (simp_all add: dumps_if_list_eq)

lemma take1_dropna:
  "take (Suc 0) (dropna cs) = (case find (\<lambda>x. \<not> isna x) cs of None \<Rightarrow> [] | Some x \<Rightarrow> [x])"
  by (induction cs) (auto simp: dropna_def)

lemma find_boxed_object:
  "find (\<lambda>x. \<not> isna x) cs = Some x \<Longrightarrow> is_boxed x \<Longrightarrow> dtype_is_object cs"
  by (auto simp: dtype_is_object_def list_ex_iff find_Some_iff)

lemma filter_key_distinct:
  "distinct (map fst xs) \<Longrightarrow> (k, v) \<in> set xs \<Longrightarrow> filter (\<lambda>(c, cs). c = k) xs = [(k, v)]"
proof (induction xs)
  case Nil
  then show ?case by simp
next
  case (Cons x xs)
  show ?case
  proof (cases "x = (k, v)")
    case True
    with Cons.prems have "k \<notin> fst ` set xs" by auto
    then have "filter (\<lambda>(c, cs). c = k) xs = []"
      by (force simp: filter_empty_conv)
    with True show ?thesis by simp
  next
    case False
    with Cons.prems have in_xs: "(k, v) \<in> set xs" by auto
    with Cons.prems have "fst x \<noteq> k" by (auto simp: image_iff)
    with Cons.IH Cons.prems in_xs show ?thesis by (auto split: prod.splits)
  qed
qed

lemma getitem_distinct:
  "distinct (columns df) \<Longrightarrow> (col, cs) \<in> set (cols df) \<Longrightarrow> getitem df col = Inr (Series cs)"
  by (simp add: getitem_def columns_def filter_key_distinct)

lemma setitem_same:
  assumes "distinct (columns df)" "(col, cs) \<in> set (cols df)"
  shows "setitem df col cs = df"
proof -
  have "map (\<lambda>(c, cs'). if c = col then (c, cs) else (c, cs')) (cols df) = map id (cols df)"
  proof (rule map_cong[OF refl])
    fix x assume "x \<in> set (cols df)"
    with assms show "(case x of (c, cs') \<Rightarrow> if c = col then (c, cs) else (c, cs')) = id x"
      by (cases x) (auto simp: columns_def dest: eq_key_imp_eq_value)
  qed
  then show ?thesis by (simp add: setitem_def)
qed

lemma flatten_step_distinct:
  assumes "distinct (columns df)" "(col, cs) \<in> set (cols df)"
  shows "flatten_step df col = Inr (setitem df col (first_sample_policy cs))"
proof -
  have mem: "col \<in> set (columns df)"
    using assms(2) by (force simp: columns_def)
  have g: "getitem df col = Inr (Series cs)"
    using assms by (rule getitem_distinct)
  show ?thesis
  proof (cases "find (\<lambda>x. \<not> isna x) cs")
    case None
    then show ?thesis
      using g assms by (simp add: flatten_step_def take1_dropna first_sample_policy_def setitem_same)
  next
    case (Some x)
    then show ?thesis
      using g assms mem find_boxed_object[OF Some]
      by (cases x rule: is_boxed.cases)
        (simp_all add: flatten_step_def take1_dropna first_sample_policy_def setitem_same
          flatten_dict_column_def flatten_list_column_def map_dumps_if_dict map_dumps_if_list)
  qed
qed

section \<open>Distinct labels and the flattening loop\<close>

lemma getitem_Series_count:
  "getitem df col = Inr (Series cs) \<Longrightarrow> count_list (columns df) col = 1"
proof -
  assume a: "getitem df col = Inr (Series cs)"
  have "count_list (map fst xs) col = length (filter (\<lambda>(c, cs). c = col) xs)" for xs :: "(string \<times> cell list) list"
    by (induction xs) auto
  with a show ?thesis
    by (auto simp: getitem_def columns_def split: list.splits prod.splits)
qed

lemma flatten_step_count:
  "flatten_step df col = Inr df' \<Longrightarrow> count_list (columns df) col = 1"
  by (auto simp: flatten_step_def split: sum.splits selection.splits dest: getitem_Series_count)

lemma flatten_loop_count:
  "flatten_loop names df = Inr df' \<Longrightarrow> n \<in> set names \<Longrightarrow> count_list (columns df) n = 1"
proof (induction names arbitrary: df)
  case Nil
  then show ?case by simp
next
  case (Cons col rest)
  from Cons.prems(1) obtain df1 where st: "flatten_step df col = Inr df1"
    and lp: "flatten_loop rest df1 = Inr df'"
    by (auto split: sum.splits)
  show ?case
  proof (cases "n = col")
    case True
    with st show ?thesis by (simp add: flatten_step_count)
  next
    case False
    with Cons.prems(2) have "n \<in> set rest" by simp
    with Cons.IH[OF lp] have "count_list (columns df1) n = 1" .
    with columns_flatten_step[OF st] show ?thesis by simp
  qed
qed

lemma count_one_distinct: "(\<And>x. x \<in> set xs \<Longrightarrow> count_list xs x = 1) \<Longrightarrow> distinct xs"
proof (induction xs)
  case Nil
  then show ?case by simp
next
  case (Cons a xs)
  have a: "a \<notin> set xs"
  proof
    assume "a \<in> set xs"
    then have "count_list xs a \<noteq> 0" by (simp add: count_list_0_iff)
    moreover have "count_list (a # xs) a = 1" by (rule Cons.prems) simp
    ultimately show False by simp
  qed
  have "count_list xs x = 1" if "x \<in> set xs" for x
  proof -
    from that a have "x \<noteq> a" by auto
    moreover have "count_list (a # xs) x = 1" using that by (intro Cons.prems) simp
    ultimately show ?thesis by simp
  qed
  with Cons.IH a show ?case by simp
qed

lemma flatten_loop_all_distinct:
  "flatten_loop (columns df) df = Inr df' \<Longrightarrow> distinct (columns df)"
  by (rule count_one_distinct) (rule flatten_loop_count)

lemma normalize_records_distinct:
  "normalize_records data = Inr df \<Longrightarrow> distinct (columns df)"
proof -
  assume "normalize_records data = Inr df"
  then have lp: "flatten_loop (columns (standardize_columns (DataFrame data)))
      (standardize_columns (DataFrame data)) = Inr df"
    by (simp add: normalize_records_def Let_def)
  from flatten_loop_all_distinct[OF lp] columns_flatten_loop[OF lp] show ?thesis by simp
qed





section \<open>The loop against the column policy\<close>

lemma flatten_loop_distinct:
  assumes "distinct (columns df)" "distinct names" "set names \<subseteq> set (columns df)"
  shows "flatten_loop names df =
    Inr (df\<lparr>cols := map (\<lambda>(c, cs). if c \<in> set names then (c, first_sample_policy cs) else (c, cs))
      (cols df)\<rparr>)"
  using assms
proof (induction names arbitrary: df)
  case Nil
  then show ?case by (simp add: case_prod_unfold)
next
  case (Cons col rest)
  from Cons.prems(3) obtain cs where cs: "(col, cs) \<in> set (cols df)"
    by (auto simp: columns_def)
  let ?df1 = "setitem df col (first_sample_policy cs)"
  have st: "flatten_step df col = Inr ?df1"
    using Cons.prems(1) cs by (rule flatten_step_distinct)
  have c1: "columns ?df1 = columns df" by (rule columns_setitem)
  have "flatten_loop rest ?df1 =
    Inr (?df1\<lparr>cols := map (\<lambda>(c, cs). if c \<in> set rest then (c, first_sample_policy cs) else (c, cs))
      (cols ?df1)\<rparr>)"
    using Cons.prems by (intro Cons.IH) (auto simp: c1)
  moreover have "map (\<lambda>(c, cs). if c \<in> set rest then (c, first_sample_policy cs) else (c, cs))
      (cols ?df1) =
    map (\<lambda>(c, cs). if c \<in> set (col # rest) then (c, first_sample_policy cs) else (c, cs)) (cols df)"
  proof -
    have "(case (case x of (c, cs') \<Rightarrow> if c = col then (c, first_sample_policy cs) else (c, cs')) of
        (c, cs) \<Rightarrow> if c \<in> set rest then (c, first_sample_policy cs) else (c, cs)) =
      (case x of (c, cs) \<Rightarrow> if c \<in> set (col # rest) then (c, first_sample_policy cs) else (c, cs))"
      if "x \<in> set (cols df)" for x
    proof (cases x)
      case (Pair c cs')
      show ?thesis
      proof (cases "c = col")
        case True
        with Pair that cs Cons.prems(1) have "cs' = cs"
          by (auto simp: columns_def dest: eq_key_imp_eq_value)
        with True Pair Cons.prems(2) show ?thesis by simp
      next
        case False
        with Pair show ?thesis by simp
      qed
    qed
    then show ?thesis by (simp add: setitem_def)
  qed
  ultimately show ?case using st by (simp add: setitem_def)
qed

lemma normalize_records_policy:
  assumes "normalize_records data = Inr df"
  shows "df = (standardize_columns (DataFrame data))
    \<lparr>cols := map (\<lambda>(c, cs). (c, first_sample_policy cs)) (cols (standardize_columns (DataFrame data)))\<rparr>"
proof -
  let ?df0 = "standardize_columns (DataFrame data)"
  from assms have lp: "flatten_loop (columns ?df0) ?df0 = Inr df"
    by (simp add: normalize_records_def Let_def)
  then have d: "distinct (columns ?df0)" by (rule flatten_loop_all_distinct)
  have "map (\<lambda>(c, cs). if c \<in> set (columns ?df0) then (c, first_sample_policy cs) else (c, cs)) (cols ?df0)
    = map (\<lambda>(c, cs). (c, first_sample_policy cs)) (cols ?df0)"
    by (rule map_cong[OF refl]) (force simp: columns_def)
  with flatten_loop_distinct[OF d d subset_refl] lp show ?thesis by simp
qed

lemma length_first_sample_policy: "length (first_sample_policy cs) = length cs"
  by (simp add: first_sample_policy_def serialize_objects_def serialize_lists_def
      split: option.splits json.splits)


section \<open>The download loop\<close>

lemma output_file_inj: "output_file a = output_file b \<longleftrightarrow> a = b"
  by (simp add: output_file_def)

lemma output_file_summary:
  "output_file a = ''cpic_allele_functions.parquet'' \<longleftrightarrow> a = ''allele_functions''"
proof -
  have "''cpic_allele_functions.parquet'' = output_file ''allele_functions''"
    by (simp add: output_file_def)
  then show ?thesis by (simp only: output_file_inj)
qed

lemma download_brick_other:
  "f \<noteq> output_file name \<Longrightarrow> map_of (brick (download w (name, ep) s)) f = map_of (brick s) f"
  by (auto simp: download_def fetch_endpoint_def to_parquet_def update_conv'
      split: sum.splits if_splits)

lemma download_dataframes_other:
  "n \<noteq> name \<Longrightarrow> dataframes (download w (name, ep) s) n = dataframes s n"
  by (auto simp: download_def fetch_endpoint_def to_parquet_def split: sum.splits if_splits)




lemma download_normalize_error:
  "http_get w ep = Inr data \<Longrightarrow> data \<noteq> [] \<Longrightarrow> normalize_records data = Inl e \<Longrightarrow>
   download w (name, ep) s =
     s\<lparr>stdout := stdout s @ [Fetching ep, Retrieved (length data), ErrorFetching name e]\<rparr>"
  by (simp add: download_def fetch_endpoint_def)



lemma fold_download_brick_other:
  "f \<notin> output_file ` fst ` set es \<Longrightarrow>
   map_of (brick (fold (download w) es s)) f = map_of (brick s) f"
proof (induction es arbitrary: s)
  case Nil
  then show ?case by simp
next
  case (Cons ne es)
  obtain n e where ne: "ne = (n, e)" by (cases ne)
  with Cons.prems have "f \<noteq> output_file n" "f \<notin> output_file ` fst ` set es" by auto
  with Cons.IH[of "download w ne s"] ne show ?case
    by (simp add: download_brick_other)
qed

lemma fold_download_dataframes_other:
  "n \<notin> fst ` set es \<Longrightarrow> dataframes (fold (download w) es s) n = dataframes s n"
proof (induction es arbitrary: s)
  case Nil
  then show ?case by simp
next
  case (Cons ne es)
  obtain m e where ne: "ne = (m, e)" by (cases ne)
  with Cons.prems have "n \<noteq> m" "n \<notin> fst ` set es" by auto
  with Cons.IH[of "download w ne s"] ne show ?case
    by (simp add: download_dataframes_other)
qed

text \<open>
  With distinct names, what the loop leaves for one endpoint is what its own pass left,
  started on a state that agrees with the initial one on that endpoint.
\<close>

lemma fold_download_at:
  assumes "distinct (map fst es)" "(name, ep) \<in> set es"
  shows "\<exists>s'. map_of (brick (fold (download w) es s)) (output_file name)
        = map_of (brick (download w (name, ep) s')) (output_file name)
      \<and> dataframes (fold (download w) es s) name = dataframes (download w (name, ep) s') name
      \<and> map_of (brick s') (output_file name) = map_of (brick s) (output_file name)
      \<and> dataframes s' name = dataframes s name"
  using assms
proof (induction es arbitrary: s)
  case Nil
  then show ?case by simp
next
  case (Cons ne es)
  show ?case
  proof (cases "ne = (name, ep)")
    case True
    with Cons.prems have notin: "name \<notin> fst ` set es" by auto
    then have "output_file name \<notin> output_file ` fst ` set es"
      by (force simp: output_file_inj)
    with notin True show ?thesis
      by (intro exI[of _ s]) (simp add: fold_download_brick_other fold_download_dataframes_other)
  next
    case False
    obtain n e where ne: "ne = (n, e)" by (cases ne)
    from False Cons.prems have mem: "(name, ep) \<in> set es" by auto
    with Cons.prems ne have neq: "name \<noteq> n" by (auto simp: image_iff)
    from Cons.prems have "distinct (map fst es)" by simp
    from Cons.IH[OF this mem, of "download w ne s"] obtain s' where
      s': "map_of (brick (fold (download w) es (download w ne s))) (output_file name)
          = map_of (brick (download w (name, ep) s')) (output_file name)"
        "dataframes (fold (download w) es (download w ne s)) name
          = dataframes (download w (name, ep) s') name"
        "map_of (brick s') (output_file name) = map_of (brick (download w ne s)) (output_file name)"
        "dataframes s' name = dataframes (download w ne s) name"
      by blast
    from neq have "output_file name \<noteq> output_file n" by (simp add: output_file_inj)
    with s' neq ne show ?thesis
      by (intro exI[of _ s']) (simp add: download_brick_other download_dataframes_other)
  qed
qed

lemma distinct_endpoints: "distinct (map fst endpoints)"
  by (simp add: endpoints_def)

lemma summary_not_endpoint: "''allele_functions'' \<notin> fst ` set endpoints"
  by (simp add: endpoints_def)

section \<open>The summaries and the report\<close>

lemma brick_allele_summary_other:
  "f \<noteq> ''cpic_allele_functions.parquet'' \<Longrightarrow>
   map_of (brick (snd (allele_summary w s))) f = map_of (brick s) f"
  by (auto simp: allele_summary_def to_parquet_def Let_def update_conv' split: option.splits)

lemma dataframes_allele_summary: "dataframes (snd (allele_summary w s)) = dataframes s"
  by (auto simp: allele_summary_def to_parquet_def Let_def split: option.splits)

lemma brick_recommendation_summary: "brick (recommendation_summary s) = brick s"
  by (simp add: recommendation_summary_def split: option.splits)

lemma dataframes_recommendation_summary: "dataframes (recommendation_summary s) = dataframes s"
  by (simp add: recommendation_summary_def split: option.splits)

lemma brick_report: "brick (report s) = brick s"
  by (simp add: report_def Let_def)

lemma dataframes_report: "dataframes (report s) = dataframes s"
  by (simp add: report_def Let_def)

lemma brick_main: "brick (snd (main w dir)) = brick (snd (allele_summary w (download_all w dir)))"
  by (simp add: main_def brick_report brick_recommendation_summary
      split: prod.splits option.splits)

lemma dataframes_main: "dataframes (snd (main w dir)) = dataframes (download_all w dir)"
proof -
  have "dataframes (snd (main w dir)) = dataframes (snd (allele_summary w (download_all w dir)))"
    by (simp add: main_def dataframes_report dataframes_recommendation_summary
        split: prod.splits option.splits)
  then show ?thesis by (simp add: dataframes_allele_summary)
qed

lemma main_endpoint_file:
  assumes "(name, ep) \<in> set endpoints"
  shows "map_of (brick (snd (main w dir))) (output_file name)
    = map_of (brick (download_all w dir)) (output_file name)"
proof -
  from assms have "name \<in> fst ` set endpoints" by force
  with summary_not_endpoint have "name \<noteq> ''allele_functions''" by blast
  then have "output_file name \<noteq> ''cpic_allele_functions.parquet''"
    by (simp add: output_file_summary)
  then show ?thesis by (simp add: brick_main brick_allele_summary_other)
qed

lemma download_all_at:
  assumes "(name, ep) \<in> set endpoints"
  shows "\<exists>s'. map_of (brick (download_all w dir)) (output_file name)
        = map_of (brick (download w (name, ep) s')) (output_file name)
      \<and> dataframes (download_all w dir) name = dataframes (download w (name, ep) s') name
      \<and> map_of (brick s') (output_file name) = map_of dir (output_file name)
      \<and> dataframes s' name = None"
  using fold_download_at[OF distinct_endpoints assms, of w "initial dir"]
  by (simp add: download_all_def initial_def)

section \<open>Flattening twice, and selecting columns\<close>

lemma filter_key_map:
  "filter (\<lambda>(c, cs). c = col) (map (\<lambda>(c, cs). if c = col then (c, new) else (c, cs)) xs)
   = map (\<lambda>(c, cs). (c, new)) (filter (\<lambda>(c, cs). c = col) xs)"
  by (induction xs) auto

lemma getitem_setitem:
  "getitem df col = Inr (Series cs) \<Longrightarrow> getitem (setitem df col new) col = Inr (Series new)"
  by (auto simp: getitem_def setitem_def filter_key_map split: list.splits)

lemma setitem_setitem: "setitem (setitem df col a) col b = setitem df col b"
proof -
  have "map ((\<lambda>(c, cs). if c = col then (c, b) else (c, cs)) \<circ>
      (\<lambda>(c, cs). if c = col then (c, a) else (c, cs))) xs
    = map (\<lambda>(c, cs). if c = col then (c, b) else (c, cs)) xs" for xs :: "(string \<times> cell list) list"
    by (rule map_cong[OF refl]) auto
  then show ?thesis by (simp add: setitem_def)
qed

lemma dumps_if_dict_idem: "dumps_if_dict (dumps_if_dict x) = dumps_if_dict x"
  by (cases x rule: isinstance_dict.cases) (simp_all add: dumps_if_dict_def)

lemma dumps_if_list_idem: "dumps_if_list (dumps_if_list x) = dumps_if_list x"
  by (cases x rule: isinstance_list.cases) (simp_all add: dumps_if_list_def)

lemma map_dumps_if_dict_idem: "map dumps_if_dict (map dumps_if_dict cs) = map dumps_if_dict cs"
  by (simp add: comp_def dumps_if_dict_idem)

lemma map_dumps_if_list_idem: "map dumps_if_list (map dumps_if_list cs) = map dumps_if_list cs"
  by (simp add: comp_def dumps_if_list_idem)

lemma flatten_dict_column_idem:
  "flatten_dict_column (flatten_dict_column df col) col = flatten_dict_column df col"
proof (cases "col \<in> set (columns df)")
  case False
  then show ?thesis by (simp add: flatten_dict_column_def)
next
  case True
  show ?thesis
  proof (cases "getitem df col")
    case (Inl e)
    with True show ?thesis by (simp add: flatten_dict_column_def)
  next
    case (Inr sel)
    show ?thesis
    proof (cases sel)
      case (Frame fs)
      with Inr True show ?thesis by (simp add: flatten_dict_column_def)
    next
      case (Series cs)
      with Inr have g: "getitem df col = Inr (Series cs)" by simp
      from g True have "flatten_dict_column df col = setitem df col (map dumps_if_dict cs)"
        by (simp add: flatten_dict_column_def)
      with True getitem_setitem[OF g, of "map dumps_if_dict cs"] show ?thesis
        by (simp add: flatten_dict_column_def columns_setitem setitem_setitem
            map_dumps_if_dict_idem del: map_map)
    qed
  qed
qed

lemma flatten_list_column_idem:
  "flatten_list_column (flatten_list_column df col) col = flatten_list_column df col"
proof (cases "col \<in> set (columns df)")
  case False
  then show ?thesis by (simp add: flatten_list_column_def)
next
  case True
  show ?thesis
  proof (cases "getitem df col")
    case (Inl e)
    with True show ?thesis by (simp add: flatten_list_column_def)
  next
    case (Inr sel)
    show ?thesis
    proof (cases sel)
      case (Frame fs)
      with Inr True show ?thesis by (simp add: flatten_list_column_def)
    next
      case (Series cs)
      with Inr have g: "getitem df col = Inr (Series cs)" by simp
      from g True have "flatten_list_column df col = setitem df col (map dumps_if_list cs)"
        by (simp add: flatten_list_column_def)
      with True getitem_setitem[OF g, of "map dumps_if_list cs"] show ?thesis
        by (simp add: flatten_list_column_def columns_setitem setitem_setitem
            map_dumps_if_list_idem del: map_map)
    qed
  qed
qed


section \<open>The whole run\<close>













lemma endpoint_normalize_failed:
  assumes "(name, endpoint) \<in> set endpoints"
    and "http_get w endpoint = Inr data" and "data \<noteq> []"
    and "normalize_records data = Inl e"
  shows "dataframes (snd (main w dir)) name = None"
    and "map_of (brick (snd (main w dir))) (output_file name) = map_of dir (output_file name)"
proof -
  obtain s' where s': "map_of (brick (download_all w dir)) (output_file name)
        = map_of (brick (download w (name, endpoint) s')) (output_file name)"
      "dataframes (download_all w dir) name = dataframes (download w (name, endpoint) s') name"
      "map_of (brick s') (output_file name) = map_of dir (output_file name)"
      "dataframes s' name = None"
    using download_all_at[OF assms(1)] by blast
  from s' show "dataframes (snd (main w dir)) name = None"
    by (simp add: dataframes_main download_normalize_error[OF assms(2-4)])
  from s' show "map_of (brick (snd (main w dir))) (output_file name) = map_of dir (output_file name)"
    by (simp add: main_endpoint_file[OF assms(1)] download_normalize_error[OF assms(2-4)])
qed

section \<open>Decoding what \<^verbatim>\<open>json.dumps\<close> wrote\<close>

lemma char_eq_code: "c = d \<longleftrightarrow> (of_char c :: nat) = of_char d"
  by simp

lemma hex_value_hex_digit: "a < 16 \<Longrightarrow> hex_value (hex_digit a) = Some a"
  by (auto simp: hex_value_def hex_digit_def Let_def)

lemma chunk_Some [simp]: "chunk c (Some (str, rest)) = Some (c # str, rest)"
  by (simp add: chunk_def)

lemma chunk_None [simp]: "chunk c None = None"
  by (simp add: chunk_def)

lemma scanstring_escape_char: "scanstring (escape_char c @ t) = chunk c (scanstring t)"
proof -
  define n where "n = (of_char c :: nat)"
  have n: "n < 256" by (simp add: n_def)
  have c: "c = char_of n" by (simp add: n_def)
  have eqs: "c = CHR 0x22 \<longleftrightarrow> n = 34" "c = CHR 0x5C \<longleftrightarrow> n = 92"
    "c = CHR 0x08 \<longleftrightarrow> n = 8" "c = CHR 0x0C \<longleftrightarrow> n = 12" "c = CHR 0x0A \<longleftrightarrow> n = 10"
    "c = CHR 0x0D \<longleftrightarrow> n = 13" "c = CHR 0x09 \<longleftrightarrow> n = 9"
    by (simp_all add: n_def char_eq_code[of c])
  consider "n = 34" | "n = 92" | "n = 8" | "n = 12" | "n = 10" | "n = 13" | "n = 9"
    | "n \<notin> {34, 92, 8, 12, 10, 13, 9}" "n < 32 \<or> 126 < n"
    | "n \<notin> {34, 92, 8, 12, 10, 13, 9}" "32 \<le> n" "n \<le> 126"
    by fastforce
  then show ?thesis
  proof cases
    case 8
    let ?h3 = "hex_digit (n div 16)" and ?h4 = "hex_digit (n mod 16)"
    from 8 have e: "escape_char c = [CHR 0x5C, CHR ''u'', CHR ''0'', CHR ''0'', ?h3, ?h4]"
      by (simp add: escape_char_def n_def[symmetric])
    from n have "n div 16 < 16" by simp
    then have d: "decode_uXXXX CHR ''0'' CHR ''0'' ?h3 ?h4 = Some n"
      by (simp add: decode_uXXXX_def hex_value_hex_digit) (simp add: hex_value_def)
    show ?thesis
      by (simp add: e d n) (simp add: c)
  next
    case 9
    then have e: "escape_char c = [c]"
      by (simp add: escape_char_def n_def[symmetric])
    from 9 show ?thesis
      by (simp add: e eqs) (simp add: n_def)
  qed (insert eqs, simp_all add: escape_char_def n_def[symmetric] backslash_def)
qed

lemma scanstring_escaped:
  "scanstring (concat (map escape_char s) @ CHR 0x22 # rest) = Some (s, rest)"
  by (induction s) (simp_all add: scanstring_escape_char)

lemma scanstring_dumps_str: "scanstring (tl (dumps_str s) @ rest) = Some (s, rest)"
  by (simp add: dumps_str_def scanstring_escaped)

lemma is_digit_char_of: "(d::nat) < 10 \<Longrightarrow> is_digit (char_of (48 + d))"
  by (simp add: is_digit_def)

lemma digits_all_digit: "list_all is_digit (digits n)"
proof (induction n rule: digits.induct)
  case (1 n)
  show ?case
  proof (cases "n < 10")
    case True
    then show ?thesis by (subst digits.simps) (simp add: is_digit_char_of)
  next
    case False
    with 1 show ?thesis by (subst digits.simps) (simp add: is_digit_char_of)
  qed
qed

lemma digits_not_Nil: "digits n \<noteq> []"
  by (subst digits.simps) simp

lemma int_of_digits_snoc:
  "int_of_digits (ds @ [c]) = 10 * int_of_digits ds + ((of_char c :: nat) - 48)"
  by (simp add: int_of_digits_def)

lemma int_of_digits_digits: "int_of_digits (digits n) = n"
proof (induction n rule: digits.induct)
  case (1 n)
  show ?case
  proof (cases "n < 10")
    case True
    then show ?thesis
      by (subst digits.simps) (simp add: int_of_digits_def)
  next
    case False
    with 1 have "int_of_digits (digits (n div 10)) = n div 10" by simp
    with False show ?thesis
      by (subst digits.simps) (simp add: int_of_digits_snoc)
  qed
qed

lemma hd_digits_zero: "hd (digits n) = CHR ''0'' \<longleftrightarrow> n = 0"
proof (induction n rule: digits.induct)
  case (1 n)
  show ?case
  proof (cases "n < 10")
    case True
    then have "digits n = [char_of (48 + n)]" by (subst digits.simps) simp
    moreover from True have "char_of (48 + n) = CHR ''0'' \<longleftrightarrow> n = 0"
      by (simp add: char_eq_code)
    ultimately show ?thesis by simp
  next
    case False
    then have "hd (digits n) = hd (digits (n div 10))"
      by (subst digits.simps) (simp add: digits_not_Nil)
    with 1 False show ?thesis by simp
  qed
qed

lemma digits_zero: "digits 0 = ''0''"
  by (subst digits.simps) (simp add: char_eq_code)

lemma delimited_not_digit: "delimited rest \<Longrightarrow> takeWhile is_digit rest = []"
  by (cases rest) (auto simp: is_digit_def)

lemma delimited_no_frac: "delimited rest \<Longrightarrow> \<not> has_frac rest"
  by (cases rest rule: has_frac.cases) auto

lemma delimited_no_exp: "delimited rest \<Longrightarrow> \<not> has_exp rest"
  by (cases rest rule: has_exp.cases) auto

lemma scan_integer_digits:
  assumes "delimited rest"
  shows "scan_integer (digits n @ rest) = Some (n, rest)"
proof (cases "n = 0")
  case True
  then show ?thesis by (simp add: digits_zero scan_integer_def)
next
  case False
  obtain c r where cr: "digits n = c # r"
    using digits_not_Nil[of n] by (cases "digits n") auto
  with False hd_digits_zero[of n] have c0: "c \<noteq> CHR ''0''" by simp
  from cr digits_all_digit[of n] have dig: "is_digit c" "\<forall>x\<in>set (digits n). is_digit x"
    by (simp_all add: list_all_iff)
  have tw: "takeWhile is_digit (digits n @ rest) = digits n"
    using dig(2) delimited_not_digit[OF assms] by (simp add: takeWhile_append2)
  have "dropWhile is_digit rest = rest"
    using delimited_not_digit[OF assms] by (metis takeWhile_dropWhile_id append_Nil)
  then have dw: "dropWhile is_digit (digits n @ rest) = rest"
    using dig(2) by (simp add: dropWhile_append2)
  have "scan_integer ((c # r) @ rest)
    = Some (int_of_digits (takeWhile is_digit ((c # r) @ rest)), dropWhile is_digit ((c # r) @ rest))"
    using c0 dig(1) by (simp add: scan_integer_def)
  then show ?thesis
    using tw dw by (simp add: cr[symmetric] int_of_digits_digits)
qed

lemma digits_no_minus: "hd (digits n) \<noteq> CHR ''-''"
proof -
  obtain c r where cr: "digits n = c # r"
    using digits_not_Nil[of n] by (cases "digits n") auto
  with digits_all_digit[of n] have "is_digit c" by simp
  then have "c \<noteq> CHR ''-''" by (auto simp: is_digit_def)
  with cr show ?thesis by simp
qed

lemma scan_number_str_int:
  assumes "delimited rest"
  shows "scan_number (str_int i @ rest) = Some (JInt i, rest)"
proof (cases "i < 0")
  case True
  then show ?thesis
    by (simp add: scan_number_def str_int_def scan_integer_digits[OF assms]
        delimited_no_frac[OF assms] delimited_no_exp[OF assms])
next
  case False
  obtain c r where cr: "digits (nat i) = c # r"
    using digits_not_Nil[of "nat i"] by (cases "digits (nat i)") auto
  with digits_no_minus[of "nat i"] have "c \<noteq> CHR ''-''" by simp
  then have "(case digits (nat i) @ rest of [] \<Rightarrow> False | c # r \<Rightarrow> c = CHR ''-'') = False"
    by (simp add: cr)
  with False show ?thesis
    by (simp add: scan_number_def str_int_def scan_integer_digits[OF assms]
        delimited_no_frac[OF assms] delimited_no_exp[OF assms])
qed

lemma str_int_first:
  "\<exists>c r. str_int i = c # r \<and> (c = CHR ''-'' \<or> is_digit c)"
proof -
  obtain c r where cr: "digits (nat \<bar>i\<bar>) = c # r"
    using digits_not_Nil[of "nat \<bar>i\<bar>"] by (cases "digits (nat \<bar>i\<bar>)") auto
  with digits_all_digit[of "nat \<bar>i\<bar>"] have "is_digit c" by simp
  with cr show ?thesis
    by (cases "i < 0") (auto simp: str_int_def abs_if)
qed

lemma skip_ws_nonws: "\<not> is_ws c \<Longrightarrow> skip_ws (c # s) = c # s"
  by (simp add: skip_ws_def)

lemma skip_ws_space: "skip_ws (CHR '' '' # s) = skip_ws s"
  by (simp add: skip_ws_def is_ws_def)

lemma digit_not_special:
  assumes "is_digit c \<or> c = CHR ''-''"
  shows "\<not> is_ws c" "c \<noteq> CHR 0x22" "c \<noteq> CHR ''{''" "c \<noteq> CHR ''[''" "c \<noteq> CHR '']''"
    "c \<noteq> CHR ''n''" "c \<noteq> CHR ''t''" "c \<noteq> CHR ''f''"
  using assms by (auto simp: is_digit_def is_ws_def)

lemma scan_once_number:
  "is_digit c \<or> c = CHR ''-'' \<Longrightarrow> scan_once (Suc m) (c # t) = scan_number (c # t)"
  by (simp add: digit_not_special)

lemma length_dumps_str: "2 \<le> length (dumps_str s)"
  by (simp add: dumps_str_def)

lemma json_dumps_first: "\<exists>c r. json_dumps v = c # r \<and> \<not> is_ws c \<and> c \<noteq> CHR '']''"
proof (cases v)
  case (JInt i)
  obtain c r where cr: "str_int i = c # r" and "c = CHR ''-'' \<or> is_digit c"
    using str_int_first by blast
  then have "is_digit c \<or> c = CHR ''-''" by blast
  from digit_not_special(1,5)[OF this] JInt cr show ?thesis by simp
next
  case (JStr s)
  then show ?thesis by (simp add: dumps_str_def is_ws_def)
qed (auto simp: is_ws_def)

lemma dumps_items_first:
  "xs \<noteq> [] \<Longrightarrow> \<exists>c r. dumps_items xs = c # r \<and> \<not> is_ws c \<and> c \<noteq> CHR '']''"
proof -
  assume "xs \<noteq> []"
  then obtain x ys where xs: "xs = x # ys" by (cases xs) auto
  obtain c r where "json_dumps x = c # r" "\<not> is_ws c" "c \<noteq> CHR '']''"
    using json_dumps_first by blast
  with xs show ?thesis by (cases ys) auto
qed

lemma dumps_members_first: "ms \<noteq> [] \<Longrightarrow> dumps_members ms = CHR 0x22 # tl (dumps_members ms)"
proof -
  assume "ms \<noteq> []"
  then obtain k v ns where ms: "ms = (k, v) # ns" by (cases ms) auto
  then show ?thesis by (cases ns) (simp_all add: dumps_str_def)
qed

lemma update_fresh: "k \<notin> fst ` set al \<Longrightarrow> AList.update k v al = al @ [(k, v)]"
  by (induction al) auto

lemma fold_update_distinct:
  "distinct (map fst ps) \<Longrightarrow> fst ` set acc \<inter> fst ` set ps = {} \<Longrightarrow>
   fold (\<lambda>(k, v) d. AList.update k v d) ps acc = acc @ ps"
proof (induction ps arbitrary: acc)
  case Nil
  then show ?case by simp
next
  case (Cons p ps)
  obtain k v where p: "p = (k, v)" by (cases p)
  from Cons.prems p have fresh: "k \<notin> fst ` set acc" by auto
  have "fold (\<lambda>(k, v) d. AList.update k v d) ps (acc @ [(k, v)]) = (acc @ [(k, v)]) @ ps"
    using Cons.prems p by (intro Cons.IH) auto
  with fresh p show ?case by (simp add: update_fresh)
qed

lemma dict_distinct: "distinct (map fst ms) \<Longrightarrow> dict ms = ms"
  using fold_update_distinct[of ms "[]"] by (simp add: dict_def)

lemma scan_once_roundtrip:
  "wf_json v \<longrightarrow> (\<forall>n rest. length (json_dumps v) \<le> n \<longrightarrow> delimited rest \<longrightarrow>
      scan_once n (json_dumps v @ rest) = Some (v, rest))"
  and "wf_items xs \<longrightarrow> xs \<noteq> [] \<longrightarrow> (\<forall>n rest. length (dumps_items xs) < n \<longrightarrow>
      parse_array n (dumps_items xs @ CHR '']'' # rest) = Some (xs, rest))"
  and "wf_members ms \<longrightarrow> ms \<noteq> [] \<longrightarrow> (\<forall>n rest. length (dumps_members ms) \<le> n \<longrightarrow>
      parse_object n (tl (dumps_members ms) @ CHR ''}'' # rest) = Some (ms, rest))"
proof (induction v and xs and ms rule: json_dumps_dumps_items_dumps_members.induct)
  case 1
  show ?case
  proof (intro impI allI)
    fix n rest assume "length (json_dumps JNull) \<le> n"
    then obtain m where "n = Suc m" by (cases n) auto
    then show "scan_once n (json_dumps JNull @ rest) = Some (JNull, rest)" by simp
  qed
next
  case (2 b)
  show ?case
  proof (intro impI allI)
    fix n rest assume "length (json_dumps (JBool b)) \<le> n"
    then obtain m where "n = Suc m" by (cases n) (auto split: if_splits)
    then show "scan_once n (json_dumps (JBool b) @ rest) = Some (JBool b, rest)" by simp
  qed
next
  case (3 i)
  show ?case
  proof (intro impI allI)
    fix n rest assume len: "length (json_dumps (JInt i)) \<le> n" and d: "delimited rest"
    obtain c r where cr: "str_int i = c # r" and c: "c = CHR ''-'' \<or> is_digit c"
      using str_int_first by blast
    from len cr obtain m where n: "n = Suc m" by (cases n) auto
    from c have "scan_once (Suc m) (c # r @ rest) = scan_number (c # r @ rest)"
      by (intro scan_once_number) blast
    with scan_number_str_int[OF d, of i] cr n
    show "scan_once n (json_dumps (JInt i) @ rest) = Some (JInt i, rest)" by simp
  qed
next
  case (4 s)
  show ?case
  proof (intro impI allI)
    fix n rest assume "length (json_dumps (JStr s)) \<le> n"
    then obtain m where "n = Suc m" by (cases n) (auto simp: dumps_str_def)
    then show "scan_once n (json_dumps (JStr s) @ rest) = Some (JStr s, rest)"
      by (simp add: dumps_str_def scanstring_escaped)
  qed
next
  case (5 xs)
  show ?case
  proof (intro impI allI)
    fix n rest
    assume wf: "wf_json (JArr xs)" and len: "length (json_dumps (JArr xs)) \<le> n"
    from len obtain m where n: "n = Suc m" and m: "length (dumps_items xs) < m"
      by (cases n) auto
    show "scan_once n (json_dumps (JArr xs) @ rest) = Some (JArr xs, rest)"
    proof (cases "xs = []")
      case True
      with n show ?thesis by (simp add: skip_ws_nonws is_ws_def)
    next
      case False
      obtain c r where cr: "dumps_items xs = c # r" and c: "\<not> is_ws c" "c \<noteq> CHR '']''"
        using dumps_items_first[OF False] by blast
      from 5 wf False m have "parse_array m (dumps_items xs @ CHR '']'' # rest) = Some (xs, rest)"
        by simp
      with cr have "parse_array m (c # r @ CHR '']'' # rest) = Some (xs, rest)" by simp
      with n cr c show ?thesis by (simp add: skip_ws_nonws)
    qed
  qed
next
  case (6 ms)
  show ?case
  proof (intro impI allI)
    fix n rest
    assume wf: "wf_json (JObj ms)" and len: "length (json_dumps (JObj ms)) \<le> n"
    from len obtain m where n: "n = Suc m" and m: "length (dumps_members ms) \<le> m"
      by (cases n) auto
    show "scan_once n (json_dumps (JObj ms) @ rest) = Some (JObj ms, rest)"
    proof (cases "ms = []")
      case True
      with n show ?thesis by (simp add: skip_ws_nonws is_ws_def)
    next
      case False
      from 6 wf False m
      have po: "parse_object m (tl (dumps_members ms) @ CHR ''}'' # rest) = Some (ms, rest)"
        by simp
      from wf have "dict ms = ms" by (simp add: dict_distinct)
      with po n show ?thesis
        by (subst json_dumps.simps, subst dumps_members_first[OF False])
          (simp add: skip_ws_nonws is_ws_def)
    qed
  qed
next
  case 7
  show ?case by simp
next
  case (8 x)
  show ?case
  proof (intro impI allI)
    fix n rest
    assume wf: "wf_items [x]" and len: "length (dumps_items [x]) < n"
    from len obtain m where n: "n = Suc m" and m: "length (json_dumps x) \<le> m"
      by (cases n) auto
    from 8 wf m have "scan_once m (json_dumps x @ CHR '']'' # rest) = Some (x, CHR '']'' # rest)"
      by simp
    with n show "parse_array n (dumps_items [x] @ CHR '']'' # rest) = Some ([x], rest)"
      by (simp add: skip_ws_nonws is_ws_def)
  qed
next
  case (9 x y ys)
  show ?case
  proof (intro impI allI)
    fix n rest
    assume wf: "wf_items (x # y # ys)" and len: "length (dumps_items (x # y # ys)) < n"
    let ?tail = "dumps_items (y # ys) @ CHR '']'' # rest"
    from len obtain m where n: "n = Suc m" and m: "length (json_dumps x) \<le> m"
      "length (dumps_items (y # ys)) < m"
      by (cases n) auto
    from 9(1) wf m(1)
    have so: "scan_once m (json_dumps x @ CHR '','' # CHR '' '' # ?tail)
        = Some (x, CHR '','' # CHR '' '' # ?tail)"
      by simp
    from 9(2) wf m(2) have pa: "parse_array m ?tail = Some (y # ys, rest)" by simp
    obtain c r where cr: "dumps_items (y # ys) = c # r" and c: "\<not> is_ws c"
      using dumps_items_first[of "y # ys"] by auto
    then have sk: "skip_ws (CHR '' '' # ?tail) = ?tail"
      by (simp add: skip_ws_space skip_ws_nonws)
    have "parse_array (Suc m) (json_dumps x @ CHR '','' # CHR '' '' # ?tail) = Some (x # y # ys, rest)"
      by (simp add: so pa sk skip_ws_nonws is_ws_def del: dumps_items.simps)
    with n show "parse_array n (dumps_items (x # y # ys) @ CHR '']'' # rest) = Some (x # y # ys, rest)"
      by simp
  qed
next
  case 10
  show ?case by simp
next
  case (11 k v)
  show ?case
  proof (intro impI allI)
    fix n rest
    assume wf: "wf_members [(k, v)]" and len: "length (dumps_members [(k, v)]) \<le> n"
    let ?tail = "json_dumps v @ CHR ''}'' # rest"
    from len length_dumps_str[of k] obtain m where n: "n = Suc m"
      and m: "length (json_dumps v) \<le> m"
      by (cases n) auto
    from 11 wf m have so: "scan_once m ?tail = Some (v, CHR ''}'' # rest)" by simp
    obtain c r where "json_dumps v = c # r" "\<not> is_ws c" using json_dumps_first by blast
    then have sk: "skip_ws (CHR '' '' # ?tail) = ?tail"
      by (simp add: skip_ws_space skip_ws_nonws)
    have ss: "scanstring (tl (dumps_str k) @ CHR '':'' # CHR '' '' # ?tail)
        = Some (k, CHR '':'' # CHR '' '' # ?tail)"
      by (rule scanstring_dumps_str)
    have "parse_object (Suc m) (tl (dumps_str k) @ CHR '':'' # CHR '' '' # ?tail)
        = Some ([(k, v)], rest)"
      by (simp add: ss so sk skip_ws_nonws is_ws_def)
    moreover have "tl (dumps_members [(k, v)]) @ CHR ''}'' # rest
        = tl (dumps_str k) @ CHR '':'' # CHR '' '' # ?tail"
      by (simp add: dumps_str_def)
    ultimately show "parse_object n (tl (dumps_members [(k, v)]) @ CHR ''}'' # rest)
        = Some ([(k, v)], rest)"
      using n by simp
  qed
next
  case (12 k v p ps)
  show ?case
  proof (intro impI allI)
    fix n rest
    assume wf: "wf_members ((k, v) # p # ps)"
      and len: "length (dumps_members ((k, v) # p # ps)) \<le> n"
    let ?more = "tl (dumps_members (p # ps)) @ CHR ''}'' # rest"
    let ?tail = "json_dumps v @ CHR '','' # CHR '' '' # CHR 0x22 # ?more"
    have first: "dumps_members (p # ps) = CHR 0x22 # tl (dumps_members (p # ps))"
      by (rule dumps_members_first) simp
    from len length_dumps_str[of k] obtain m where n: "n = Suc m"
      and m: "length (json_dumps v) \<le> m" "length (dumps_members (p # ps)) \<le> m"
      by (cases n) auto
    from 12(1) wf m(1)
    have so: "scan_once m ?tail = Some (v, CHR '','' # CHR '' '' # CHR 0x22 # ?more)" by simp
    from 12(2) wf m(2) have po: "parse_object m ?more = Some (p # ps, rest)" by simp
    obtain c r where "json_dumps v = c # r" "\<not> is_ws c" using json_dumps_first by blast
    then have sk: "skip_ws (CHR '' '' # ?tail) = ?tail"
      by (simp add: skip_ws_space skip_ws_nonws)
    have sk2: "skip_ws (CHR '' '' # CHR 0x22 # ?more) = CHR 0x22 # ?more"
      by (simp add: skip_ws_space skip_ws_nonws is_ws_def)
    have ss: "scanstring (tl (dumps_str k) @ CHR '':'' # CHR '' '' # ?tail)
        = Some (k, CHR '':'' # CHR '' '' # ?tail)"
      by (rule scanstring_dumps_str)
    have "parse_object (Suc m) (tl (dumps_str k) @ CHR '':'' # CHR '' '' # ?tail)
        = Some ((k, v) # p # ps, rest)"
      by (simp add: ss so sk sk2 po skip_ws_nonws is_ws_def del: dumps_members.simps)
    moreover have "tl (dumps_members ((k, v) # p # ps)) @ CHR ''}'' # rest
        = tl (dumps_str k) @ CHR '':'' # CHR '' '' # ?tail"
      by (subst dumps_members.simps, subst first) (simp add: dumps_str_def)
    ultimately show "parse_object n (tl (dumps_members ((k, v) # p # ps)) @ CHR ''}'' # rest)
        = Some ((k, v) # p # ps, rest)"
      using n by simp
  qed
qed

lemma json_loads_dumps: "wf_json v \<Longrightarrow> json_loads (json_dumps v) = Some v"
proof -
  assume wf: "wf_json v"
  obtain c r where "json_dumps v = c # r" "\<not> is_ws c" using json_dumps_first by blast
  then have sk: "skip_ws (json_dumps v) = json_dumps v" by (simp add: skip_ws_nonws)
  from scan_once_roundtrip(1)[of v] wf
  have "\<forall>n rest. length (json_dumps v) \<le> n \<longrightarrow> delimited rest \<longrightarrow>
      scan_once n (json_dumps v @ rest) = Some (v, rest)" by blast
  from this[rule_format, of "length (json_dumps v)" "[]"]
  have "scan_once (length (json_dumps v)) (json_dumps v) = Some (v, [])" by simp
  moreover have "skip_ws [] = []" by (simp add: skip_ws_def)
  ultimately show ?thesis by (simp add: json_loads_def sk)
qed

lemma fast_unique_set: "set (fast_unique acc ks) = set acc \<union> set ks"
  by (induction ks arbitrary: acc) auto

lemma source_column:
  assumes "i < length data" and "map_of (data ! i) k = Some v"
  shows "(standardize k, map (\<lambda>r. map_of r k) data) \<in> set (cols (standardize_columns (DataFrame data)))"
proof -
  from assms(2) have "k \<in> fst ` set (data ! i)" by (force dest: map_of_SomeD)
  with assms(1) have "k \<in> set (concat (map (map fst) data))"
    by (auto intro!: bexI[of _ "data ! i"])
  then have "k \<in> set (fast_unique [] (concat (map (map fst) data)))"
    by (simp add: fast_unique_set)
  then show ?thesis
    by (force simp: standardize_columns_def DataFrame_def)
qed

lemma normalized_column:
  assumes "normalize_records data = Inr df" and "i < length data"
    and "map_of (data ! i) k = Some v"
  shows "map_of (cols df) (standardize k) = Some (first_sample_policy (map (\<lambda>r. map_of r k) data))"
proof -
  let ?df0 = "standardize_columns (DataFrame data)"
  have "(standardize k, first_sample_policy (map (\<lambda>r. map_of r k) data)) \<in> set (cols df)"
    using source_column[OF assms(2,3)]
    by (subst normalize_records_policy[OF assms(1)]) force
  moreover have "distinct (map fst (cols df))"
    using normalize_records_distinct[OF assms(1)] by (simp add: columns_def)
  ultimately show ?thesis by (rule map_of_is_SomeI[rotated])
qed

section \<open>The claims\<close>



text \<open>
  C2. In a normalised table every column is the column of the renamed frame under the
  policy of the first non-null value: when that value is an object the object cells are
  replaced by their JSON text, when it is a list the list cells are, and otherwise
  (a scalar first, or no non-null value) the column is left as it is, whatever the later
  cells hold.
\<close>

theorem first_sample_decides_column:
  assumes "normalize_records data = Inr df"
  shows "cols df = map (\<lambda>(c, cs). (c, first_sample_policy cs))
      (cols (standardize_columns (DataFrame data)))"
  by (subst normalize_records_policy[OF assms]) simp

theorem first_sample_decides_column_witness:
  "normalize_records mixed_records = Inr mixed_table
   \<and> cols mixed_table = map (\<lambda>(c, cs). (c, first_sample_policy cs))
        (cols (standardize_columns (DataFrame mixed_records)))
   \<and> map_of (cols mixed_table) ''a''
        = Some [Some (JStr (json_dumps (JObj [(''k'', JInt 1)]))), Some (JArr [JInt 1]), None]
   \<and> map_of (cols mixed_table) ''b''
        = Some [Some JNull, Some (JStr (json_dumps (JArr [JInt 2, JInt 3]))), Some (JObj [])]
   \<and> map_of (cols mixed_table) ''c'' = Some [Some (JStr ''x''), Some (JObj []), Some (JArr [])]"
proof -
  have h: "normalize_records mixed_records = Inr mixed_table" by code_simp
  have a: "map_of (cols mixed_table) ''a''
        = Some [Some (JStr (json_dumps (JObj [(''k'', JInt 1)]))), Some (JArr [JInt 1]), None]"
    by code_simp
  have b: "map_of (cols mixed_table) ''b''
        = Some [Some JNull, Some (JStr (json_dumps (JArr [JInt 2, JInt 3]))), Some (JObj [])]"
    by code_simp
  have c: "map_of (cols mixed_table) ''c'' = Some [Some (JStr ''x''), Some (JObj []), Some (JArr [])]"
    by code_simp
  from first_sample_decides_column[OF h] h a b c show ?thesis by simp
qed

text \<open>
  C3. Take a record and a key whose value in that record is a JSON object, in a source
  column whose first non-null value is an object too (or a list, in a column whose first
  non-null value is a list). In the normalised table the cell of that record, in the
  column of the renamed key, is the string that \<^verbatim>\<open>json.dumps\<close> gives for the value, and
  \<^verbatim>\<open>json.loads\<close> of that string is the value again. Values are those that
  \<^verbatim>\<open>response.json()\<close> gives: the keys of a \<^verbatim>\<open>dict\<close> are distinct.
\<close>

theorem flattened_cell_round_trip:
  assumes "normalize_records data = Inr df" and "i < length data"
    and "map_of (data ! i) k = Some v"
    and "find (\<lambda>x. \<not> isna x) (map (\<lambda>r. map_of r k) data) = Some first"
    and "(isinstance_dict (Some v) \<and> isinstance_dict first)
       \<or> (isinstance_list (Some v) \<and> isinstance_list first)"
    and "wf_json v"
  shows "\<exists>cs. map_of (cols df) (standardize k) = Some cs
    \<and> length cs = length data
    \<and> cs ! i = Some (JStr (json_dumps v))
    \<and> json_loads (json_dumps v) = Some v"
proof -
  let ?col = "map (\<lambda>r. map_of r k) data"
  have col: "map_of (cols df) (standardize k) = Some (first_sample_policy ?col)"
    using assms(1-3) by (rule normalized_column)
  have len: "length (first_sample_policy ?col) = length data"
    by (simp add: length_first_sample_policy)
  have cell: "?col ! i = Some v" using assms(2,3) by simp
  have "first_sample_policy ?col ! i = Some (JStr (json_dumps v))"
    using assms(5)
  proof
    assume "isinstance_dict (Some v) \<and> isinstance_dict first"
    then obtain ms ms' where "v = JObj ms" "first = Some (JObj ms')"
      by (cases "Some v" rule: isinstance_dict.cases; cases first rule: isinstance_dict.cases) auto
    with assms(2,4) cell show ?thesis
      by (simp add: first_sample_policy_def serialize_objects_def)
  next
    assume "isinstance_list (Some v) \<and> isinstance_list first"
    then obtain xs xs' where "v = JArr xs" "first = Some (JArr xs')"
      by (cases "Some v" rule: isinstance_list.cases; cases first rule: isinstance_list.cases) auto
    with assms(2,4) cell show ?thesis
      by (simp add: first_sample_policy_def serialize_lists_def)
  qed
  with col len json_loads_dumps[OF assms(6)] show ?thesis by blast
qed

theorem flattened_cell_round_trip_witness:
  "normalize_records mixed_records = Inr mixed_table \<and> 0 < length mixed_records
   \<and> map_of (mixed_records ! 0) ''a'' = Some (JObj [(''k'', JInt 1)])
   \<and> find (\<lambda>x. \<not> isna x) (map (\<lambda>r. map_of r ''a'') mixed_records)
        = Some (Some (JObj [(''k'', JInt 1)]))
   \<and> isinstance_dict (Some (JObj [(''k'', JInt 1)]))
   \<and> wf_json (JObj [(''k'', JInt 1)])
   \<and> json_dumps (JObj [(''k'', JInt 1)])
        = [CHR ''{'', CHR 0x22, CHR ''k'', CHR 0x22, CHR '':'', CHR '' '', CHR ''1'', CHR ''}'']
   \<and> (\<exists>cs. map_of (cols mixed_table) ''a'' = Some cs
          \<and> cs ! 0 = Some (JStr (json_dumps (JObj [(''k'', JInt 1)]))))
   \<and> json_loads (json_dumps (JObj [(''k'', JInt 1)])) = Some (JObj [(''k'', JInt 1)])"
proof -
  let ?v = "JObj [(''k'', JInt 1)]"
  have h1: "normalize_records mixed_records = Inr mixed_table" by code_simp
  have h2: "0 < length mixed_records" by (simp add: mixed_records_def)
  have h3: "map_of (mixed_records ! 0) ''a'' = Some ?v" by (simp add: mixed_records_def)
  have h4: "find (\<lambda>x. \<not> isna x) (map (\<lambda>r. map_of r ''a'') mixed_records) = Some (Some ?v)"
    by (simp add: mixed_records_def)
  have h5: "(isinstance_dict (Some ?v) \<and> isinstance_dict (Some ?v))
       \<or> (isinstance_list (Some ?v) \<and> isinstance_list (Some ?v))" by simp
  have h6: "wf_json ?v" by simp
  have s: "standardize ''a'' = ''a''" by code_simp
  have d: "json_dumps ?v
      = [CHR ''{'', CHR 0x22, CHR ''k'', CHR 0x22, CHR '':'', CHR '' '', CHR ''1'', CHR ''}'']"
    by code_simp
  from flattened_cell_round_trip[OF h1 h2 h3 h4 h5 h6]
  obtain cs where "map_of (cols mixed_table) (standardize ''a'') = Some cs"
    and "cs ! 0 = Some (JStr (json_dumps ?v))"
    and "json_loads (json_dumps ?v) = Some ?v"
    by blast
  with s h1 h2 h3 h4 h6 d show ?thesis by auto
qed











text \<open>
  C8 against the code. The loop stores the table at line 78 and writes it at line 82.
  In the world \<open>troubled\<close> the write of \<^verbatim>\<open>cpic_allele.parquet\<close> raises: the exception is
  caught and printed and the file is absent, yet the allele table stays in
  \<^verbatim>\<open>dataframes\<close>, the test of line 88 holds, and the summary block runs and writes
  \<^verbatim>\<open>cpic_allele_functions.parquet\<close>.
\<close>

theorem write_error_keeps_table:
  "http_get troubled ''allele'' = Inr allele_records
   \<and> normalize_records allele_records = Inr allele_table
   \<and> parquet_raises troubled (output_file ''allele'') allele_table
   \<and> ErrorFetching ''allele'' WriteError \<in> set (stdout (download_all troubled []))
   \<and> map_of (brick (download_all troubled [])) ''cpic_allele.parquet'' = None
   \<and> dataframes (download_all troubled []) ''allele'' = Some allele_table
   \<and> SavedSummary 2 \<in> set (stdout (snd (main troubled [])))
   \<and> map_of (brick (snd (main troubled []))) ''cpic_allele_functions.parquet''
        = Some allele_functions_table
   \<and> map_of (brick (snd (main troubled []))) ''cpic_allele.parquet'' = None"
  by code_simp

text \<open>
  C9. The block of lines 105 to 113 writes no file: the directory and the stored tables
  are the same after it as before it, and all it does is print its banner and one line
  with the number of recommendations, when the \<^verbatim>\<open>recommendation\<close> table is stored, and
  nothing otherwise.
\<close>

theorem recommendation_summary_writes_nothing:
  "brick (recommendation_summary s) = brick s
   \<and> dataframes (recommendation_summary s) = dataframes s
   \<and> stdout (recommendation_summary s) =
       stdout s @ (case dataframes s ''recommendation'' of
                     None \<Rightarrow> []
                   | Some rec_df \<Rightarrow>
                       [Rule, Title ''Creating recommendation summary...'', Rule,
                        RecommendationAvailable (len rec_df)])"
  by (simp add: recommendation_summary_def split: option.splits)

text \<open>
  C10. Flattening is idempotent: \<^verbatim>\<open>flatten_dict_column\<close> applied twice to a column gives
  the frame that one application gives, and so does \<^verbatim>\<open>flatten_list_column\<close>; a label
  that the frame does not carry leaves the frame as it is.
\<close>

theorem flatten_idempotent:
  "flatten_dict_column (flatten_dict_column df col) col = flatten_dict_column df col
   \<and> flatten_list_column (flatten_list_column df col) col = flatten_list_column df col
   \<and> (col \<notin> set (columns df) \<longrightarrow>
        flatten_dict_column df col = df \<and> flatten_list_column df col = df)"
  by (simp add: flatten_dict_column_idem flatten_list_column_idem)
    (simp add: flatten_dict_column_def flatten_list_column_def)

theorem flatten_idempotent_witness:
  "''d'' \<notin> set (columns (DataFrame mixed_records))
   \<and> flatten_dict_column (DataFrame mixed_records) ''d'' = DataFrame mixed_records
   \<and> flatten_list_column (DataFrame mixed_records) ''d'' = DataFrame mixed_records
   \<and> flatten_dict_column (DataFrame mixed_records) ''a'' \<noteq> DataFrame mixed_records
   \<and> flatten_dict_column (flatten_dict_column (DataFrame mixed_records) ''a'') ''a''
       = flatten_dict_column (DataFrame mixed_records) ''a''"
proof -
  have h: "''d'' \<notin> set (columns (DataFrame mixed_records))" by code_simp
  have n: "flatten_dict_column (DataFrame mixed_records) ''a'' \<noteq> DataFrame mixed_records"
    by code_simp
  from flatten_idempotent[of "DataFrame mixed_records" "''d''"] h
    flatten_idempotent[of "DataFrame mixed_records" "''a''"] n
  show ?thesis by blast
qed

end
